theory Spec2Isabelle
  imports Main
begin

section \<open>Session synchronisation (useSessionSync)\<close>

subsection \<open>Data model\<close>

text \<open>
  The payload of a \<^verbatim>\<open>claude-session-state\<close> event, as the listener's type argument
  declares it. An optional field is an \<open>option\<close>; \<open>None\<close> is JavaScript's
  \<^verbatim>\<open>undefined\<close>.
\<close>

datatype status = Started | Stopped

record event =
  ev_session_id :: string
  ev_status :: status
  ev_success :: "bool option"
  ev_error :: "string option"
  ev_project_path :: "string option"
  ev_model :: "string option"
  ev_pid :: "int option"
  ev_run_id :: "int option"

text \<open>
  Modelled from the spec: the types of a tab and of its session are declared in
  \<^verbatim>\<open>useTabs\<close>, which is not among the sources. A tab has an identifier, an execution
  state (a string literal; the handler compares it with \<^verbatim>\<open>'streaming'\<close>), an optional
  session (identifier and project path) and an optional project path of its own.
\<close>

record session =
  s_id :: string
  s_project_path :: string

record tab =
  t_id :: string
  t_state :: string
  t_session :: "session option"
  t_projectPath :: "string option"

text \<open>
  What the handler does to the outside: a call of \<^verbatim>\<open>updateTabStreamingStatus\<close> (the
  mutation of the tab registry), \<^verbatim>\<open>console.warn\<close> with one argument and
  \<^verbatim>\<open>console.error\<close> with two. The handler returns the calls in the order it makes
  them.
\<close>

datatype effect =
    UpdateTabStreamingStatus string bool "string option"
  | ConsoleWarn string
  | ConsoleError string string

fun isMutation :: "effect \<Rightarrow> bool" where
  "isMutation (UpdateTabStreamingStatus _ _ _) = True"
| "isMutation _ = False"

fun isWarning :: "effect \<Rightarrow> bool" where
  "isWarning (ConsoleWarn _) = True"
| "isWarning _ = False"

definition mutations :: "effect list \<Rightarrow> effect list" where
  "mutations es = filter isMutation es"

definition warnings :: "effect list \<Rightarrow> effect list" where
  "warnings es = filter isWarning es"

text \<open>The mutations that set a tab to streaming: the second argument is \<^verbatim>\<open>true\<close>.\<close>

fun isStreamingMutation :: "effect \<Rightarrow> bool" where
  "isStreamingMutation (UpdateTabStreamingStatus _ isStreaming _) = isStreaming"
| "isStreamingMutation _ = False"

subsection \<open>JavaScript truthiness of an optional string\<close>

text \<open>
  \<^verbatim>\<open>undefined\<close> and the empty string are falsy, every other string is truthy.
  \<open>orElse a b\<close> is \<^verbatim>\<open>a || b\<close>.
\<close>

fun truthy :: "string option \<Rightarrow> bool" where
  "truthy None = False"
| "truthy (Some s) = (s \<noteq> [])"

definition orElse :: "string option \<Rightarrow> string option \<Rightarrow> string option" where
  "orElse a b = (if truthy a then a else b)"

subsection \<open>Path normalisation\<close>

text \<open>
  \<^verbatim>\<open>p?.replace(/\\/g, '/').toLowerCase().replace(/\/+$/, '') || ''\<close>.
  A string is the sequence of the bytes of its UTF-8 encoding. \<^verbatim>\<open>String.prototype.toLowerCase\<close>
  is a built-in of the language that lower-cases over the whole of Unicode; it is the
  parameter \<open>toLowerCase\<close> of \<open>normalizePath\<close> and of every function that calls it, so
  that what is proved of them holds for the built-in as it is.
\<close>

definition replaceBackslashes :: "string \<Rightarrow> string" where
  "replaceBackslashes s = map (\<lambda>c. if c = CHR 0x5C then CHR ''/'' else c) s"

definition stripTrailingSlashes :: "string \<Rightarrow> string" where
  "stripTrailingSlashes s = rev (dropWhile (\<lambda>c. c = CHR ''/'') (rev s))"

definition normalizePath :: "(string \<Rightarrow> string) \<Rightarrow> string \<Rightarrow> string" where
  "normalizePath toLowerCase p = stripTrailingSlashes (toLowerCase (replaceBackslashes p))"

text \<open>
  What the built-in does on a string of ASCII characters (bytes below 128): it maps the
  letters A to Z to a to z and leaves every other character as it is. The theorems that
  depend on the letters assume that \<open>toLowerCase\<close> agrees with \<open>asciiToLowerCase\<close> on
  such strings, and nothing about it on other strings.
\<close>

definition isAscii :: "string \<Rightarrow> bool" where
  "isAscii s = list_all (\<lambda>c. \<not> digit7 c) s"

definition asciiToLowerCaseChar :: "char \<Rightarrow> char" where
  "asciiToLowerCaseChar c =
     (case map_of (zip ''ABCDEFGHIJKLMNOPQRSTUVWXYZ'' ''abcdefghijklmnopqrstuvwxyz'') c of
        Some l \<Rightarrow> l
      | None \<Rightarrow> c)"

definition asciiToLowerCase :: "string \<Rightarrow> string" where
  "asciiToLowerCase s = map asciiToLowerCaseChar s"

subsection \<open>Matching an event to a tab\<close>

text \<open>The two predicates handed to \<^verbatim>\<open>tabsRef.current.find\<close>.\<close>

definition matchesSessionId :: "event \<Rightarrow> tab \<Rightarrow> bool" where
  "matchesSessionId ev t =
     (case t_session t of None \<Rightarrow> False | Some s \<Rightarrow> s_id s = ev_session_id ev)"

definition tabProjectPath :: "tab \<Rightarrow> string option" where
  "tabProjectPath t = orElse (t_projectPath t) (map_option s_project_path (t_session t))"

definition matchesProjectPath :: "(string \<Rightarrow> string) \<Rightarrow> string \<Rightarrow> tab \<Rightarrow> bool" where
  "matchesProjectPath toLowerCase normalizedEventPath t =
     (case tabProjectPath t of
        None \<Rightarrow> False
      | Some p \<Rightarrow> p \<noteq> [] \<and> normalizePath toLowerCase p = normalizedEventPath)"

text \<open>
  The value of the variable \<^verbatim>\<open>tab\<close> after the two lookups: \<^verbatim>\<open>find\<close> gives the first
  tab that satisfies the predicate, and the second lookup is made only when the first
  found nothing and \<^verbatim>\<open>project_path\<close> is truthy.
\<close>

definition findTab :: "(string \<Rightarrow> string) \<Rightarrow> tab list \<Rightarrow> event \<Rightarrow> tab option" where
  "findTab toLowerCase tabs ev =
     (case find (matchesSessionId ev) tabs of
        Some t \<Rightarrow> Some t
      | None \<Rightarrow>
          (case ev_project_path ev of
             None \<Rightarrow> None
           | Some project_path \<Rightarrow>
               if project_path \<noteq> []
               then find (matchesProjectPath toLowerCase
                            (normalizePath toLowerCase project_path)) tabs
               else None))"

subsection \<open>The event handler\<close>

definition noTabFoundMessage :: "string \<Rightarrow> string" where
  "noTabFoundMessage session_id = ''[SessionSync] No tab found for session '' @ session_id"

definition stoppedWithErrorMessage :: "string \<Rightarrow> string" where
  "stoppedWithErrorMessage session_id =
     ''[SessionSync] Session '' @ session_id @ '' stopped with error:''"

text \<open>
  The listener's callback, run on the tabs that \<^verbatim>\<open>tabsRef.current\<close> holds when the event
  arrives.
\<close>

definition onSessionState :: "(string \<Rightarrow> string) \<Rightarrow> tab list \<Rightarrow> event \<Rightarrow> effect list" where
  "onSessionState toLowerCase tabs ev =
     (case findTab toLowerCase tabs ev of
        Some t \<Rightarrow>
          (case ev_status ev of
             Started \<Rightarrow>
               if t_state t \<noteq> ''streaming''
               then [UpdateTabStreamingStatus (t_id t) True (Some (ev_session_id ev))]
               else []
           | Stopped \<Rightarrow>
               if t_state t = ''streaming''
               then UpdateTabStreamingStatus (t_id t) False None
                    # (case ev_error ev of
                         None \<Rightarrow> []
                       | Some e \<Rightarrow>
                           if e \<noteq> []
                           then [ConsoleError (stoppedWithErrorMessage (ev_session_id ev)) e]
                           else [])
               else [])
      | None \<Rightarrow> [ConsoleWarn (noTabFoundMessage (ev_session_id ev))])"

subsection \<open>The path step in the specification's words\<close>

text \<open>
  The specification describes the second step as a match on a tab whose own project path
  or its session's project path, after normalisation, equals the normalised event path,
  tried when the event carries a project path. The two definitions below follow these
  words, to be compared with \<open>matchesProjectPath\<close> and \<open>findTab\<close> above.
\<close>

definition spec_matchesProjectPath :: "(string \<Rightarrow> string) \<Rightarrow> string \<Rightarrow> tab \<Rightarrow> bool" where
  "spec_matchesProjectPath toLowerCase project_path t =
     ((case t_projectPath t of
         None \<Rightarrow> False
       | Some p \<Rightarrow> normalizePath toLowerCase p = normalizePath toLowerCase project_path)
      \<or> (case t_session t of
            None \<Rightarrow> False
          | Some s \<Rightarrow>
              normalizePath toLowerCase (s_project_path s)
                = normalizePath toLowerCase project_path))"

definition spec_findTab :: "(string \<Rightarrow> string) \<Rightarrow> tab list \<Rightarrow> event \<Rightarrow> tab option" where
  "spec_findTab toLowerCase tabs ev =
     (case find (matchesSessionId ev) tabs of
        Some t \<Rightarrow> Some t
      | None \<Rightarrow>
          (case ev_project_path ev of
             None \<Rightarrow> None
           | Some project_path \<Rightarrow>
               find (spec_matchesProjectPath toLowerCase project_path) tabs))"

subsection \<open>Sample tabs and events\<close>

text \<open>
  The scenario of the specification: tab A has no session and the project path
  \<^verbatim>\<open>/repo/app\<close>; session \<^verbatim>\<open>s1\<close> starts in \<^verbatim>\<open>/repo/app\<close> and later stops with the
  error \<^verbatim>\<open>oom\<close>. \<open>tabA_streaming\<close> is tab A once the registry has applied the first
  mutation, \<open>tabB\<close> an idle tab that already carries session \<^verbatim>\<open>s1\<close>, and \<open>tabX\<close> a tab
  whose own project path differs from its session's. \<open>tabP\<close> and \<open>tabQ\<close> are two tabs
  open on \<^verbatim>\<open>/repo/app\<close>: P runs session \<^verbatim>\<open>s0\<close>, Q is idle and has no session yet.
\<close>

definition tabA :: tab where
  "tabA = \<lparr>t_id = ''A'', t_state = ''idle'', t_session = None,
            t_projectPath = Some ''/repo/app''\<rparr>"

definition tabA_streaming :: tab where
  "tabA_streaming =
     \<lparr>t_id = ''A'', t_state = ''streaming'',
      t_session = Some \<lparr>s_id = ''s1'', s_project_path = ''/repo/app''\<rparr>,
      t_projectPath = Some ''/repo/app''\<rparr>"

definition tabB :: tab where
  "tabB = \<lparr>t_id = ''B'', t_state = ''idle'',
            t_session = Some \<lparr>s_id = ''s1'', s_project_path = ''/repo/app''\<rparr>,
            t_projectPath = None\<rparr>"

definition tabX :: tab where
  "tabX = \<lparr>t_id = ''X'', t_state = ''idle'',
            t_session = Some \<lparr>s_id = ''s0'', s_project_path = ''/repo/b''\<rparr>,
            t_projectPath = Some ''/repo/a''\<rparr>"

definition tabP :: tab where
  "tabP = \<lparr>t_id = ''P'', t_state = ''streaming'',
            t_session = Some \<lparr>s_id = ''s0'', s_project_path = ''/repo/app''\<rparr>,
            t_projectPath = Some ''/repo/app''\<rparr>"

definition tabQ :: tab where
  "tabQ = \<lparr>t_id = ''Q'', t_state = ''idle'', t_session = None,
            t_projectPath = Some ''/repo/app''\<rparr>"

definition startedS1 :: event where
  "startedS1 =
     \<lparr>ev_session_id = ''s1'', ev_status = Started, ev_success = None, ev_error = None,
      ev_project_path = Some ''/repo/app'', ev_model = None, ev_pid = None,
      ev_run_id = None\<rparr>"

definition stoppedS1 :: event where
  "stoppedS1 =
     \<lparr>ev_session_id = ''s1'', ev_status = Stopped, ev_success = Some False,
      ev_error = Some ''oom'', ev_project_path = None, ev_model = None, ev_pid = None,
      ev_run_id = None\<rparr>"

definition startedS2 :: event where
  "startedS2 =
     \<lparr>ev_session_id = ''s2'', ev_status = Started, ev_success = None, ev_error = None,
      ev_project_path = Some ''/repo/b'', ev_model = None, ev_pid = None,
      ev_run_id = None\<rparr>"

section \<open>Custom slash commands (useCustomSlashCommands)\<close>

datatype ExecutionEngine = Claude | Gemini | Codex

record CustomSlashCommandResponse =
  cmd_name :: string
  cmd_path :: string
  cmd_scope :: string
  cmd_description :: "string option"
  cmd_argHint :: "string option"
  cmd_content :: string

text \<open>
  Modelled from the spec: the type \<^verbatim>\<open>SlashCommand\<close> is declared in \<^verbatim>\<open>slashCommands\<close>,
  which is not among the sources; its fields are those the command catalogue and the
  conversion below fill in.
\<close>

record SlashCommand =
  sc_name :: string
  sc_description :: string
  sc_source :: string
  sc_category :: string
  sc_supportsNonInteractive :: bool
  sc_argHint :: "string option"

text \<open>The three pieces of state of the hook.\<close>

record customCommandsState =
  rawCommands :: "CustomSlashCommandResponse list"
  isLoading :: bool
  error :: "string option"

datatype consoleCall = ConsoleDebug string | ConsoleErrorLog string string

text \<open>\<^verbatim>\<open>errorMessage.includes(sub)\<close>: \<open>sub\<close> occurs in the string as a contiguous part.\<close>

fun str_includes :: "string \<Rightarrow> string \<Rightarrow> bool" where
  "str_includes [] sub = (sub = [])"
| "str_includes (c # cs) sub = (take (length sub) (c # cs) = sub \<or> str_includes cs sub)"

fun getBackendCommand :: "ExecutionEngine \<Rightarrow> string" where
  "getBackendCommand Gemini = ''list_gemini_custom_slash_commands''"
| "getBackendCommand _ = ''list_custom_slash_commands''"

fun engineName :: "ExecutionEngine \<Rightarrow> string" where
  "engineName Claude = ''claude''"
| "engineName Gemini = ''gemini''"
| "engineName Codex = ''codex''"

text \<open>
  \<open>loadCommands\<close> from its call to its return. The backend call \<^verbatim>\<open>invoke\<close> is a
  parameter: it takes the command name and the \<^verbatim>\<open>projectPath\<close> argument and answers
  \<open>Inr\<close> the commands, or \<open>Inl\<close> the message of the value it rejects with (the
  \<^verbatim>\<open>errorMessage\<close> that the catch block computes). The result is the state once the
  \<^verbatim>\<open>finally\<close> block has run, with the console calls made on the way.
\<close>

definition loadCommands ::
  "(string \<Rightarrow> string option \<Rightarrow> string + CustomSlashCommandResponse list) \<Rightarrow>
   string option \<Rightarrow> bool \<Rightarrow> ExecutionEngine \<Rightarrow> customCommandsState \<Rightarrow>
   customCommandsState \<times> consoleCall list" where
  "loadCommands invoke projectPath enabled engine st =
     (if \<not> enabled then (st\<lparr>rawCommands := []\<rparr>, [])
      else if engine = Codex then (st\<lparr>rawCommands := []\<rparr>, [])
      else
        (let st1 = st\<lparr>isLoading := True, error := None\<rparr> in
         case invoke (getBackendCommand engine) (orElse projectPath None) of
           Inr commands \<Rightarrow> (st1\<lparr>rawCommands := commands, isLoading := False\<rparr>, [])
         | Inl errorMessage \<Rightarrow>
             if str_includes errorMessage ''not found''
                \<or> str_includes errorMessage ''Unknown command''
             then (st1\<lparr>rawCommands := [], isLoading := False\<rparr>,
                   [ConsoleDebug
                      (''Custom slash commands not available for engine: '' @ engineName engine)])
             else (st1\<lparr>error := Some errorMessage, rawCommands := [], isLoading := False\<rparr>,
                   [ConsoleErrorLog ''Failed to load custom slash commands:'' errorMessage])))"

definition toSlashCommand :: "CustomSlashCommandResponse \<Rightarrow> SlashCommand" where
  "toSlashCommand cmd =
     \<lparr>sc_name = cmd_name cmd,
      sc_description =
        (case cmd_description cmd of
           None \<Rightarrow> ''Custom command: '' @ cmd_name cmd
         | Some d \<Rightarrow> if d \<noteq> [] then d else ''Custom command: '' @ cmd_name cmd),
      sc_source = (if cmd_scope cmd = ''project'' then ''project'' else ''user''),
      sc_category = ''custom'',
      sc_supportsNonInteractive = True,
      sc_argHint = orElse (cmd_argHint cmd) None\<rparr>"

definition customCommands :: "customCommandsState \<Rightarrow> SlashCommand list" where
  "customCommands st = map toSlashCommand (rawCommands st)"

text \<open>
  Two backends that fail, one with a message of the expected kind and one with another,
  and a state that still holds a command and an error from an earlier load.
\<close>

definition invokeNotFound ::
  "string \<Rightarrow> string option \<Rightarrow> string + CustomSlashCommandResponse list" where
  "invokeNotFound c a = Inl (''Command '' @ c @ '' not found'')"

definition invokeDenied ::
  "string \<Rightarrow> string option \<Rightarrow> string + CustomSlashCommandResponse list" where
  "invokeDenied c a = Inl ''permission denied''"

definition staleState :: customCommandsState where
  "staleState =
     \<lparr>rawCommands =
        [\<lparr>cmd_name = ''review'', cmd_path = ''/repo/app/.claude/commands/review.md'',
          cmd_scope = ''project'', cmd_description = None, cmd_argHint = None,
          cmd_content = ''Review the changes''\<rparr>],
      isLoading = False, error = Some ''timeout''\<rparr>"

section \<open>The slash command menu (useSlashCommandMenu)\<close>

text \<open>
  The two pieces of state of the hook. \<open>selectedIndex\<close> is a JavaScript number that the
  hook only ever sets to integers; \<^verbatim>\<open>setSelectedIndex\<close> is handed to the caller, so any
  integer can be in it.
\<close>

record menuState =
  selectedIndex :: int
  isManuallyClose :: bool

text \<open>
  \<open>isSlashCommand\<close> (the result of \<^verbatim>\<open>detectSlashCommand\<close> on the prompt) and
  \<open>filteredCommands\<close> (the result of \<^verbatim>\<open>filterSlashCommands\<close>, which is not among the
  sources) are parameters.
\<close>

definition isOpen :: "bool \<Rightarrow> menuState \<Rightarrow> SlashCommand list \<Rightarrow> bool" where
  "isOpen isSlashCommand st filteredCommands =
     (isSlashCommand \<and> \<not> isManuallyClose st \<and> length filteredCommands > 0)"

text \<open>
  What a call of \<open>handleKeyDown\<close> leaves behind: its return value, the state after the
  setters have run, whether \<^verbatim>\<open>e.preventDefault()\<close> was called, and the argument of
  \<^verbatim>\<open>onCommandSelect\<close> when it was called.
\<close>

record keyOutcome =
  handled :: bool
  menu :: menuState
  preventDefault :: bool
  commandSelected :: "string option"

text \<open>\<^verbatim>\<open>filteredCommands[selectedIndex]\<close>: \<^verbatim>\<open>undefined\<close> outside the array.\<close>

definition commandAt :: "SlashCommand list \<Rightarrow> int \<Rightarrow> SlashCommand option" where
  "commandAt filteredCommands i =
     (if 0 \<le> i \<and> i < int (length filteredCommands)
      then Some (filteredCommands ! nat i) else None)"

definition handleKeyDown ::
  "bool \<Rightarrow> SlashCommand list \<Rightarrow> string \<Rightarrow> menuState \<Rightarrow> keyOutcome" where
  "handleKeyDown isSlashCommand filteredCommands key st =
     (if \<not> isOpen isSlashCommand st filteredCommands
      then \<lparr>handled = False, menu = st, preventDefault = False, commandSelected = None\<rparr>
      else if key = ''ArrowUp''
      then \<lparr>handled = True,
            menu = st\<lparr>selectedIndex :=
              (if selectedIndex st > 0 then selectedIndex st - 1
               else int (length filteredCommands) - 1)\<rparr>,
            preventDefault = True, commandSelected = None\<rparr>
      else if key = ''ArrowDown''
      then \<lparr>handled = True,
            menu = st\<lparr>selectedIndex :=
              (if selectedIndex st < int (length filteredCommands) - 1
               then selectedIndex st + 1 else 0)\<rparr>,
            preventDefault = True, commandSelected = None\<rparr>
      else if key = ''Enter''
      then (case commandAt filteredCommands (selectedIndex st) of
              Some command \<Rightarrow>
                \<lparr>handled = True, menu = st\<lparr>isManuallyClose := True\<rparr>,
                 preventDefault = True, commandSelected = Some (''/'' @ sc_name command)\<rparr>
            | None \<Rightarrow>
                \<lparr>handled = False, menu = st, preventDefault = False,
                 commandSelected = None\<rparr>)
      else if key = ''Tab''
      then (case commandAt filteredCommands (selectedIndex st) of
              Some command \<Rightarrow>
                \<lparr>handled = True, menu = st\<lparr>isManuallyClose := True\<rparr>,
                 preventDefault = True, commandSelected = Some (''/'' @ sc_name command)\<rparr>
            | None \<Rightarrow>
                \<lparr>handled = False, menu = st, preventDefault = False,
                 commandSelected = None\<rparr>)
      else if key = ''Escape''
      then \<lparr>handled = True, menu = st\<lparr>isManuallyClose := True\<rparr>,
            preventDefault = True, commandSelected = None\<rparr>
      else \<lparr>handled = False, menu = st, preventDefault = False, commandSelected = None\<rparr>)"

text \<open>A menu of three custom commands, and the states with the first and the last selected.\<close>

definition sampleCommands :: "SlashCommand list" where
  "sampleCommands =
     [\<lparr>sc_name = ''review'', sc_description = ''Custom command: review'',
       sc_source = ''project'', sc_category = ''custom'', sc_supportsNonInteractive = True,
       sc_argHint = None\<rparr>,
      \<lparr>sc_name = ''deploy'', sc_description = ''Custom command: deploy'',
       sc_source = ''user'', sc_category = ''custom'', sc_supportsNonInteractive = True,
       sc_argHint = None\<rparr>,
      \<lparr>sc_name = ''test'', sc_description = ''Custom command: test'',
       sc_source = ''user'', sc_category = ''custom'', sc_supportsNonInteractive = True,
       sc_argHint = None\<rparr>]"

definition firstSelected :: menuState where
  "firstSelected = \<lparr>selectedIndex = 0, isManuallyClose = False\<rparr>"

definition lastSelected :: menuState where
  "lastSelected = \<lparr>selectedIndex = 2, isManuallyClose = False\<rparr>"

section \<open>The theme (ThemeContext)\<close>

datatype Theme = Light | Dark

text \<open>The updater that \<^verbatim>\<open>toggleTheme\<close> hands to \<^verbatim>\<open>setTheme\<close>.\<close>

definition toggleTheme :: "Theme \<Rightarrow> Theme" where
  "toggleTheme prev = (if prev = Light then Dark else Light)"

section \<open>Properties of the path normalisation\<close>

lemmas asciiToLowerCase_defs = asciiToLowerCase_def asciiToLowerCaseChar_def

lemmas normalizePath_defs =
  normalizePath_def stripTrailingSlashes_def replaceBackslashes_def asciiToLowerCase_defs

lemma asciiToLowerCaseChar_cases:
  "asciiToLowerCaseChar c = c \<and> c \<notin> set ''ABCDEFGHIJKLMNOPQRSTUVWXYZ''
   \<or> asciiToLowerCaseChar c \<in> set ''abcdefghijklmnopqrstuvwxyz''"
proof (cases "map_of (zip ''ABCDEFGHIJKLMNOPQRSTUVWXYZ'' ''abcdefghijklmnopqrstuvwxyz'') c")
  case None
  then have "asciiToLowerCaseChar c = c"
    unfolding asciiToLowerCaseChar_def by (simp only: option.case)
  moreover from None have "c \<notin> set ''ABCDEFGHIJKLMNOPQRSTUVWXYZ''"
    by (subst (asm) map_of_zip_is_None) simp_all
  ultimately show ?thesis by blast
next
  case (Some l)
  then have "l \<in> set ''abcdefghijklmnopqrstuvwxyz''"
    by (meson map_of_SomeD set_zip_rightD)
  moreover from Some have "asciiToLowerCaseChar c = l"
    unfolding asciiToLowerCaseChar_def by (simp only: option.case)
  ultimately show ?thesis by simp
qed

lemma lower_letter_props:
  assumes "l \<in> set ''abcdefghijklmnopqrstuvwxyz''"
  shows "l \<noteq> CHR 0x5C" and "l \<notin> set ''ABCDEFGHIJKLMNOPQRSTUVWXYZ''"
  using assms by auto

lemma asciiToLowerCaseChar_not_backslash:
  "c \<noteq> CHR 0x5C \<Longrightarrow> asciiToLowerCaseChar c \<noteq> CHR 0x5C"
  using asciiToLowerCaseChar_cases [of c] lower_letter_props(1) by metis

lemma asciiToLowerCaseChar_not_upper:
  "asciiToLowerCaseChar c \<notin> set ''ABCDEFGHIJKLMNOPQRSTUVWXYZ''"
  using asciiToLowerCaseChar_cases [of c] lower_letter_props(2) by metis

lemma set_stripTrailingSlashes: "set (stripTrailingSlashes s) \<subseteq> set s"
  using set_dropWhileD [of _ "\<lambda>c. c = CHR ''/''" "rev s"]
  by (auto simp: stripTrailingSlashes_def)

lemma stripTrailingSlashes_last:
  "stripTrailingSlashes s \<noteq> [] \<Longrightarrow> last (stripTrailingSlashes s) \<noteq> CHR ''/''"
proof -
  assume ne: "stripTrailingSlashes s \<noteq> []"
  let ?d = "dropWhile (\<lambda>c. c = CHR ''/'') (rev s)"
  from ne have "?d \<noteq> []" by (simp add: stripTrailingSlashes_def)
  then have "hd ?d \<noteq> CHR ''/''" using hd_dropWhile [of "\<lambda>c. c = CHR ''/''" "rev s"] by simp
  moreover have "last (rev ?d) = hd ?d" using \<open>?d \<noteq> []\<close> by (simp add: last_rev)
  ultimately show ?thesis by (simp add: stripTrailingSlashes_def)
qed

lemma stripTrailingSlashes_decomp:
  "\<exists>n. s = stripTrailingSlashes s @ replicate n (CHR ''/'')"
proof -
  let ?P = "\<lambda>c. c = CHR ''/''"
  let ?t = "takeWhile ?P (rev s)"
  have "\<forall>c\<in>set ?t. c = CHR ''/''" by (auto dest: set_takeWhileD)
  then have t: "?t = replicate (length ?t) (CHR ''/'')"
    by (simp add: replicate_length_same)
  have "rev s = ?t @ dropWhile ?P (rev s)" by simp
  then have "s = rev (dropWhile ?P (rev s)) @ rev ?t"
    by (metis rev_append rev_rev_ident)
  also have "rev ?t = replicate (length ?t) (CHR ''/'')"
    by (subst t) (simp only: rev_replicate)
  finally show ?thesis unfolding stripTrailingSlashes_def by blast
qed

lemma isAscii_replaceBackslashes: "isAscii p \<Longrightarrow> isAscii (replaceBackslashes p)"
  by (induction p) (simp_all add: isAscii_def replaceBackslashes_def)

lemma normalizePath_ascii:
  assumes "\<And>s. isAscii s \<Longrightarrow> toLowerCase s = asciiToLowerCase s" and "isAscii p"
  shows "normalizePath toLowerCase p = normalizePath asciiToLowerCase p"
  using assms(1) [OF isAscii_replaceBackslashes [OF assms(2)]]
  by (simp add: normalizePath_def)

lemma normalizePath_ascii_chars:
  "CHR 0x5C \<notin> set (normalizePath asciiToLowerCase p)"
  "\<forall>c\<in>set (normalizePath asciiToLowerCase p). c \<notin> set ''ABCDEFGHIJKLMNOPQRSTUVWXYZ''"
proof -
  have sub: "set (normalizePath asciiToLowerCase p)
             \<subseteq> set (asciiToLowerCase (replaceBackslashes p))"
    unfolding normalizePath_def by (rule set_stripTrailingSlashes)
  have "c \<noteq> CHR 0x5C" if "c \<in> set (asciiToLowerCase (replaceBackslashes p))" for c
  proof -
    from that obtain d where "c = asciiToLowerCaseChar (if d = CHR 0x5C then CHR ''/'' else d)"
      unfolding asciiToLowerCase_def replaceBackslashes_def by auto
    moreover have "(if d = CHR 0x5C then CHR ''/'' else d) \<noteq> CHR 0x5C" by simp
    ultimately show ?thesis using asciiToLowerCaseChar_not_backslash by metis
  qed
  with sub show "CHR 0x5C \<notin> set (normalizePath asciiToLowerCase p)" by blast
  have "c \<notin> set ''ABCDEFGHIJKLMNOPQRSTUVWXYZ''"
    if "c \<in> set (asciiToLowerCase (replaceBackslashes p))" for c
  proof -
    from that obtain d where "c = asciiToLowerCaseChar d"
      unfolding asciiToLowerCase_def by auto
    then show ?thesis using asciiToLowerCaseChar_not_upper by metis
  qed
  with sub show
    "\<forall>c\<in>set (normalizePath asciiToLowerCase p). c \<notin> set ''ABCDEFGHIJKLMNOPQRSTUVWXYZ''"
    by blast
qed

lemma sample_paths_ascii:
  "isAscii (''C:'' @ [CHR 0x5C] @ ''Users'' @ [CHR 0x5C] @ ''X'' @ [CHR 0x5C] @ ''Proj'')"
  "isAscii ''c:/Users/x/proj/''" "isAscii ''C:/USERS/X/PROJ''"
  by (simp_all add: isAscii_def)

lemma sample_paths_normalized:
  "normalizePath asciiToLowerCase
     (''C:'' @ [CHR 0x5C] @ ''Users'' @ [CHR 0x5C] @ ''X'' @ [CHR 0x5C] @ ''Proj'')
     = ''c:/users/x/proj''"
  "normalizePath asciiToLowerCase ''c:/Users/x/proj/'' = ''c:/users/x/proj''"
  "normalizePath asciiToLowerCase ''C:/USERS/X/PROJ'' = ''c:/users/x/proj''"
  by (simp_all add: normalizePath_defs)

text \<open>
  C4. For every path, the normalised path followed by some number of slashes is
  \<open>toLowerCase\<close> of the path with each backslash turned into a forward slash, and the
  normalised path does not end in a slash: the three steps, in this order. Where
  \<open>toLowerCase\<close> does on ASCII strings what the built-in does, the normalised form of an
  ASCII path has no backslash and no capital letter, and the paths \<^verbatim>\<open>C:\Users\X\Proj\<close>,
  \<^verbatim>\<open>c:/Users/x/proj/\<close> and \<^verbatim>\<open>C:/USERS/X/PROJ\<close> all normalise to \<^verbatim>\<open>c:/users/x/proj\<close>, so
  that the matcher, which compares normalised paths, takes them for the same project
  path: a tab opened on the second matches an event that carries the third.
\<close>

theorem normalizePath_steps:
  assumes "\<And>s. isAscii s \<Longrightarrow> toLowerCase s = asciiToLowerCase s"
  shows "(\<exists>n. toLowerCase (map (\<lambda>c. if c = CHR 0x5C then CHR ''/'' else c) p)
               = normalizePath toLowerCase p @ replicate n (CHR ''/''))
    \<and> (normalizePath toLowerCase p \<noteq> [] \<longrightarrow> last (normalizePath toLowerCase p) \<noteq> CHR ''/'')
    \<and> (isAscii p \<longrightarrow>
          CHR 0x5C \<notin> set (normalizePath toLowerCase p)
          \<and> (\<forall>c\<in>set (normalizePath toLowerCase p).
                c \<notin> set ''ABCDEFGHIJKLMNOPQRSTUVWXYZ''))
    \<and> normalizePath toLowerCase
         (''C:'' @ [CHR 0x5C] @ ''Users'' @ [CHR 0x5C] @ ''X'' @ [CHR 0x5C] @ ''Proj'')
         = ''c:/users/x/proj''
    \<and> normalizePath toLowerCase ''c:/Users/x/proj/'' = ''c:/users/x/proj''
    \<and> normalizePath toLowerCase ''C:/USERS/X/PROJ'' = ''c:/users/x/proj''
    \<and> matchesProjectPath toLowerCase (normalizePath toLowerCase ''C:/USERS/X/PROJ'')
         \<lparr>t_id = ''A'', t_state = ''idle'', t_session = None,
          t_projectPath = Some ''c:/Users/x/proj/''\<rparr>"
proof -
  have a: "\<exists>n. toLowerCase (map (\<lambda>c. if c = CHR 0x5C then CHR ''/'' else c) p)
               = normalizePath toLowerCase p @ replicate n (CHR ''/'')"
    using stripTrailingSlashes_decomp [of "toLowerCase (replaceBackslashes p)"]
    by (simp add: normalizePath_def replaceBackslashes_def)
  have b: "normalizePath toLowerCase p \<noteq> [] \<longrightarrow> last (normalizePath toLowerCase p) \<noteq> CHR ''/''"
    unfolding normalizePath_def using stripTrailingSlashes_last by blast
  have c: "isAscii p \<longrightarrow>
          CHR 0x5C \<notin> set (normalizePath toLowerCase p)
          \<and> (\<forall>c\<in>set (normalizePath toLowerCase p).
                c \<notin> set ''ABCDEFGHIJKLMNOPQRSTUVWXYZ'')"
    using normalizePath_ascii [OF assms, of p] normalizePath_ascii_chars [of p] by simp
  have d1: "normalizePath toLowerCase
         (''C:'' @ [CHR 0x5C] @ ''Users'' @ [CHR 0x5C] @ ''X'' @ [CHR 0x5C] @ ''Proj'')
         = ''c:/users/x/proj''"
    using normalizePath_ascii [OF assms sample_paths_ascii(1)] sample_paths_normalized(1)
    by simp
  have d2: "normalizePath toLowerCase ''c:/Users/x/proj/'' = ''c:/users/x/proj''"
    using normalizePath_ascii [OF assms sample_paths_ascii(2)] sample_paths_normalized(2)
    by simp
  have d3: "normalizePath toLowerCase ''C:/USERS/X/PROJ'' = ''c:/users/x/proj''"
    using normalizePath_ascii [OF assms sample_paths_ascii(3)] sample_paths_normalized(3)
    by simp
  have e: "matchesProjectPath toLowerCase (normalizePath toLowerCase ''C:/USERS/X/PROJ'')
         \<lparr>t_id = ''A'', t_state = ''idle'', t_session = None,
          t_projectPath = Some ''c:/Users/x/proj/''\<rparr>"
    by (simp add: matchesProjectPath_def tabProjectPath_def orElse_def d2 d3)
  from a b c d1 d2 d3 e show ?thesis by blast
qed

theorem normalizePath_steps_witness:
  "normalizePath asciiToLowerCase
     (''C:'' @ [CHR 0x5C] @ ''Users'' @ [CHR 0x5C] @ ''X'' @ [CHR 0x5C] @ ''Proj'')
     = ''c:/users/x/proj''
   \<and> normalizePath asciiToLowerCase ''c:/Users/x/proj/'' = ''c:/users/x/proj''
   \<and> normalizePath asciiToLowerCase ''C:/USERS/X/PROJ'' = ''c:/users/x/proj''
   \<and> isAscii ''C:/USERS/X/PROJ''
   \<and> CHR 0x5C \<notin> set (normalizePath asciiToLowerCase ''C:/USERS/X/PROJ'')"
proof -
  have h: "\<And>s. isAscii s \<Longrightarrow> asciiToLowerCase s = asciiToLowerCase s" by simp
  from normalizePath_steps [of asciiToLowerCase "''C:/USERS/X/PROJ''", OF h]
    sample_paths_ascii(3)
  show ?thesis by blast
qed

section \<open>Properties of the matching\<close>

lemma findTab_Some_in_set: "findTab toLowerCase tabs ev = Some t \<Longrightarrow> t \<in> set tabs"
  by (auto simp: findTab_def find_Some_iff split: option.splits if_splits)

lemma findTab_Some_iff:
  "findTab toLowerCase tabs ev = Some t \<longleftrightarrow>
     find (matchesSessionId ev) tabs = Some t
     \<or> (find (matchesSessionId ev) tabs = None \<and>
        (\<exists>p. ev_project_path ev = Some p \<and> p \<noteq> [] \<and>
             find (matchesProjectPath toLowerCase (normalizePath toLowerCase p)) tabs
               = Some t))"
  by (auto simp: findTab_def split: option.splits if_splits)

lemma find_first:
  assumes "tabs = earlier @ t # later" and "P t" and "\<forall>u\<in>set earlier. \<not> P u"
  shows "find P tabs = Some t"
  using assms by (induction earlier arbitrary: tabs) auto

lemma matchesSessionId_iff:
  "matchesSessionId ev t \<longleftrightarrow> (\<exists>s. t_session t = Some s \<and> s_id s = ev_session_id ev)"
  by (simp add: matchesSessionId_def split: option.splits)

lemma matchesProjectPath_iff:
  "matchesProjectPath toLowerCase n t \<longleftrightarrow>
     (\<exists>q. q \<noteq> [] \<and> normalizePath toLowerCase q = n \<and>
        (t_projectPath t = Some q \<or>
         (\<not> truthy (t_projectPath t) \<and> map_option s_project_path (t_session t) = Some q)))"
  by (cases "t_projectPath t"; cases "t_session t")
     (auto simp: matchesProjectPath_def tabProjectPath_def orElse_def)

lemma matchesProjectPath_spec:
  "matchesProjectPath toLowerCase (normalizePath toLowerCase p) t \<Longrightarrow>
   spec_matchesProjectPath toLowerCase p t"
  by (cases "t_projectPath t"; cases "t_session t")
     (auto simp: matchesProjectPath_def tabProjectPath_def orElse_def
        spec_matchesProjectPath_def split: if_splits)

lemma findTab_None_effects:
  "findTab toLowerCase tabs ev = None \<Longrightarrow>
   onSessionState toLowerCase tabs ev = [ConsoleWarn (noTabFoundMessage (ev_session_id ev))]"
  by (simp add: onSessionState_def)

lemma mutations_le_one: "length (mutations (onSessionState toLowerCase tabs ev)) \<le> 1"
  by (simp add: onSessionState_def mutations_def split: option.splits status.splits)

lemmas sample_defs =
  tabA_def tabA_streaming_def tabB_def startedS1_def stoppedS1_def

lemmas match_defs =
  findTab_def matchesSessionId_def matchesProjectPath_def tabProjectPath_def orElse_def

section \<open>The transitions\<close>

lemma sample_fields:
  "t_id tabA = ''A''" "t_state tabA = ''idle''"
  "t_id tabA_streaming = ''A''" "t_state tabA_streaming = ''streaming''"
  "t_id tabB = ''B''" "t_state tabB = ''idle''"
  "ev_session_id startedS1 = ''s1''" "ev_status startedS1 = Started"
  "ev_session_id stoppedS1 = ''s1''" "ev_status stoppedS1 = Stopped"
  "ev_error stoppedS1 = Some ''oom''"
  "ev_project_path startedS1 = Some ''/repo/app''"
  by (simp_all add: sample_defs)

lemma sample_matches:
  "findTab asciiToLowerCase [tabA] startedS1 = Some tabA"
  "findTab asciiToLowerCase [tabA_streaming] startedS1 = Some tabA_streaming"
  "findTab asciiToLowerCase [tabA_streaming] stoppedS1 = Some tabA_streaming"
  "findTab asciiToLowerCase [tabB] stoppedS1 = Some tabB"
  by (simp_all add: match_defs sample_defs normalizePath_defs)

lemma started_effects:
  assumes "ev_status ev = Started" and "findTab toLowerCase tabs ev = Some t"
    and "t_state t \<noteq> ''streaming''"
  shows "onSessionState toLowerCase tabs ev =
           [UpdateTabStreamingStatus (t_id t) True (Some (ev_session_id ev))]"
  using assms by (simp add: onSessionState_def)

text \<open>
  C1, as stated, fails: both \<open>tabP\<close> and \<open>tabQ\<close> are open on \<^verbatim>\<open>/repo/app\<close>, no tab has
  the session id \<^verbatim>\<open>s1\<close>, and the event \<open>startedS1\<close> carries \<^verbatim>\<open>/repo/app\<close>. \<open>tabQ\<close>
  matches by project path and is idle, but \<^verbatim>\<open>find\<close> returns \<open>tabP\<close>, which comes first
  and is streaming, so the handler issues no mutation and \<open>tabQ\<close> stays idle.
\<close>

theorem started_skips_later_matching_tab:
  "ev_status startedS1 = Started
   \<and> find (matchesSessionId startedS1) [tabP, tabQ] = None
   \<and> ev_project_path startedS1 = Some ''/repo/app''
   \<and> matchesProjectPath asciiToLowerCase (normalizePath asciiToLowerCase ''/repo/app'') tabQ
   \<and> t_state tabQ = ''idle''
   \<and> findTab asciiToLowerCase [tabP, tabQ] startedS1 = Some tabP
   \<and> onSessionState asciiToLowerCase [tabP, tabQ] startedS1 = []"
  by (simp add: onSessionState_def match_defs tabP_def tabQ_def startedS1_def
      normalizePath_defs)

text \<open>
  The same holds whatever \<open>toLowerCase\<close> does: both tabs carry the very path of the
  event.
\<close>

lemma later_matching_tab_any_toLowerCase:
  "matchesProjectPath toLowerCase (normalizePath toLowerCase ''/repo/app'') tabQ
   \<and> onSessionState toLowerCase [tabP, tabQ] startedS1 = []"
  by (simp add: onSessionState_def match_defs tabP_def tabQ_def startedS1_def)

text \<open>
  C1, amended. The tab that a \<^verbatim>\<open>started\<close> event matches is the first tab of the
  registry whose session has the event's session id or, when no tab has it and the event
  has a non-empty project path, the first tab that matches by normalised project path.
  When the state of that tab is not \<^verbatim>\<open>streaming\<close>, the handler issues exactly one
  registry mutation, \<^verbatim>\<open>updateTabStreamingStatus(tab.id, true, session_id)\<close>: it sets that
  tab to streaming and hands over the event's session id. Nothing else is done.
\<close>

theorem started_first_match_sets_streaming:
  assumes "ev_status ev = Started"
    and "tabs = earlier @ t # later"
    and "(matchesSessionId ev t \<and> (\<forall>u\<in>set earlier. \<not> matchesSessionId ev u))
         \<or> ((\<forall>u\<in>set tabs. \<not> matchesSessionId ev u) \<and>
            (\<exists>p. ev_project_path ev = Some p \<and> p \<noteq> [] \<and>
                 matchesProjectPath toLowerCase (normalizePath toLowerCase p) t \<and>
                 (\<forall>u\<in>set earlier.
                    \<not> matchesProjectPath toLowerCase (normalizePath toLowerCase p) u)))"
    and "t_state t \<noteq> ''streaming''"
  shows "onSessionState toLowerCase tabs ev =
           [UpdateTabStreamingStatus (t_id t) True (Some (ev_session_id ev))]
         \<and> mutations (onSessionState toLowerCase tabs ev) =
           [UpdateTabStreamingStatus (t_id t) True (Some (ev_session_id ev))]"
proof -
  from assms(3) have "findTab toLowerCase tabs ev = Some t"
  proof
    assume "matchesSessionId ev t \<and> (\<forall>u\<in>set earlier. \<not> matchesSessionId ev u)"
    then have "find (matchesSessionId ev) tabs = Some t"
      using find_first [OF assms(2)] by blast
    then show ?thesis by (simp add: findTab_Some_iff)
  next
    assume r: "(\<forall>u\<in>set tabs. \<not> matchesSessionId ev u) \<and>
            (\<exists>p. ev_project_path ev = Some p \<and> p \<noteq> [] \<and>
                 matchesProjectPath toLowerCase (normalizePath toLowerCase p) t \<and>
                 (\<forall>u\<in>set earlier.
                    \<not> matchesProjectPath toLowerCase (normalizePath toLowerCase p) u))"
    then have n: "find (matchesSessionId ev) tabs = None"
      by (simp add: find_None_iff)
    from r obtain p where p: "ev_project_path ev = Some p" "p \<noteq> []"
      "matchesProjectPath toLowerCase (normalizePath toLowerCase p) t"
      "\<forall>u\<in>set earlier. \<not> matchesProjectPath toLowerCase (normalizePath toLowerCase p) u"
      by blast
    from find_first [OF assms(2) p(3) p(4)] n p(1,2) show ?thesis
      by (simp add: findTab_Some_iff)
  qed
  from started_effects [OF assms(1) this assms(4)] show ?thesis
    by (simp add: mutations_def)
qed

theorem started_first_match_sets_streaming_witness:
  "ev_status startedS1 = Started
   \<and> \<not> matchesSessionId startedS1 tabQ \<and> \<not> matchesSessionId startedS1 tabP
   \<and> ev_project_path startedS1 = Some ''/repo/app''
   \<and> matchesProjectPath asciiToLowerCase (normalizePath asciiToLowerCase ''/repo/app'') tabQ
   \<and> t_state tabQ = ''idle''
   \<and> onSessionState asciiToLowerCase [tabQ, tabP] startedS1 =
       [UpdateTabStreamingStatus ''Q'' True (Some ''s1'')]"
proof -
  have h1: "ev_status startedS1 = Started" by (simp add: startedS1_def)
  have h2: "[tabQ, tabP] = [] @ tabQ # [tabP]" by simp
  have m: "\<not> matchesSessionId startedS1 tabQ" "\<not> matchesSessionId startedS1 tabP"
    by (simp_all add: matchesSessionId_def tabP_def tabQ_def startedS1_def)
  have p: "ev_project_path startedS1 = Some ''/repo/app''" by (simp add: startedS1_def)
  have q: "matchesProjectPath asciiToLowerCase
             (normalizePath asciiToLowerCase ''/repo/app'') tabQ"
    by (simp add: matchesProjectPath_def tabProjectPath_def orElse_def tabQ_def)
  have s: "t_state tabQ = ''idle''" and i: "t_id tabQ = ''Q''"
    and e: "ev_session_id startedS1 = ''s1''"
    by (simp_all add: tabQ_def startedS1_def)
  have h3: "(matchesSessionId startedS1 tabQ
              \<and> (\<forall>u\<in>set []. \<not> matchesSessionId startedS1 u))
         \<or> ((\<forall>u\<in>set [tabQ, tabP]. \<not> matchesSessionId startedS1 u) \<and>
            (\<exists>p. ev_project_path startedS1 = Some p \<and> p \<noteq> [] \<and>
                 matchesProjectPath asciiToLowerCase (normalizePath asciiToLowerCase p) tabQ \<and>
                 (\<forall>u\<in>set [].
                    \<not> matchesProjectPath asciiToLowerCase
                        (normalizePath asciiToLowerCase p) u)))"
    using m p q by simp
  have h4: "t_state tabQ \<noteq> ''streaming''" by (simp add: s)
  have "onSessionState asciiToLowerCase [tabQ, tabP] startedS1 =
       [UpdateTabStreamingStatus ''Q'' True (Some ''s1'')]"
    using started_first_match_sets_streaming [OF h1 h2 h3 h4] unfolding i e by blast
  with h1 m p q s show ?thesis by blast
qed

text \<open>
  C2. A \<^verbatim>\<open>stopped\<close> event that matches a tab: when the matched tab is streaming, the
  one mutation is \<^verbatim>\<open>updateTabStreamingStatus(tab.id, false, null)\<close> (idle, session id
  cleared); when it is not streaming, there is no mutation.
\<close>

theorem stopped_sets_idle_or_nothing:
  assumes "ev_status ev = Stopped" and "findTab toLowerCase tabs ev = Some t"
  shows "mutations (onSessionState toLowerCase tabs ev) =
           (if t_state t = ''streaming''
            then [UpdateTabStreamingStatus (t_id t) False None] else [])"
  using assms by (simp add: onSessionState_def mutations_def split: option.splits)

theorem stopped_sets_idle_or_nothing_witness:
  "ev_status stoppedS1 = Stopped
   \<and> findTab asciiToLowerCase [tabA_streaming] stoppedS1 = Some tabA_streaming
   \<and> mutations (onSessionState asciiToLowerCase [tabA_streaming] stoppedS1) =
       [UpdateTabStreamingStatus ''A'' False None]
   \<and> findTab asciiToLowerCase [tabB] stoppedS1 = Some tabB
   \<and> mutations (onSessionState asciiToLowerCase [tabB] stoppedS1) = []"
proof -
  have h1: "ev_status stoppedS1 = Stopped" by (simp add: sample_fields)
  have h2: "findTab asciiToLowerCase [tabA_streaming] stoppedS1 = Some tabA_streaming"
    by (simp add: sample_matches)
  have h3: "findTab asciiToLowerCase [tabB] stoppedS1 = Some tabB"
    by (simp add: sample_matches)
  have a: "mutations (onSessionState asciiToLowerCase [tabA_streaming] stoppedS1) =
             [UpdateTabStreamingStatus ''A'' False None]"
    using stopped_sets_idle_or_nothing [OF h1 h2] by (simp add: sample_fields)
  have b: "mutations (onSessionState asciiToLowerCase [tabB] stoppedS1) = []"
    using stopped_sets_idle_or_nothing [OF h1 h3] by (simp add: sample_fields)
  from h1 h2 h3 a b show ?thesis by blast
qed

text \<open>
  C5. A \<^verbatim>\<open>started\<close> event delivered when the tab it matches is already streaming (as it
  is after the first delivery) does nothing at all: no mutation, no diagnostic.
\<close>

theorem started_again_no_mutation:
  assumes "ev_status ev = Started" and "findTab toLowerCase tabs ev = Some t"
    and "t_state t = ''streaming''"
  shows "onSessionState toLowerCase tabs ev = []
         \<and> mutations (onSessionState toLowerCase tabs ev) = []"
  using assms by (simp add: onSessionState_def mutations_def)

theorem started_again_no_mutation_witness:
  "ev_status startedS1 = Started
   \<and> findTab asciiToLowerCase [tabA_streaming] startedS1 = Some tabA_streaming
   \<and> t_state tabA_streaming = ''streaming''
   \<and> onSessionState asciiToLowerCase [tabA_streaming] startedS1 = []
   \<and> mutations (onSessionState asciiToLowerCase [tabA_streaming] startedS1) = []"
proof -
  have h1: "ev_status startedS1 = Started" by (simp add: sample_fields)
  have h2: "findTab asciiToLowerCase [tabA_streaming] startedS1 = Some tabA_streaming"
    by (simp add: sample_matches)
  have h3: "t_state tabA_streaming = ''streaming''" by (simp add: sample_fields)
  from started_again_no_mutation [OF h1 h2 h3] h1 h2 h3 show ?thesis by blast
qed

text \<open>
  C7. One event issues at most one mutation; at most one mutation sets a tab to
  streaming; and a \<^verbatim>\<open>stopped\<close> event whose matched tab is idle does nothing.
\<close>

theorem at_most_one_mutation:
  "length (mutations (onSessionState toLowerCase tabs ev)) \<le> 1
   \<and> length (filter isStreamingMutation (onSessionState toLowerCase tabs ev)) \<le> 1
   \<and> (ev_status ev = Stopped \<and> findTab toLowerCase tabs ev = Some t \<and> t_state t = ''idle''
        \<longrightarrow> onSessionState toLowerCase tabs ev = [])"
proof -
  have "length (filter isStreamingMutation (onSessionState toLowerCase tabs ev)) \<le> 1"
    by (simp add: onSessionState_def split: option.splits status.splits)
  moreover have "onSessionState toLowerCase tabs ev = []"
    if "ev_status ev = Stopped" "findTab toLowerCase tabs ev = Some t" "t_state t = ''idle''"
    using that by (simp add: onSessionState_def)
  ultimately show ?thesis using mutations_le_one [of toLowerCase tabs ev] by blast
qed

theorem at_most_one_mutation_witness:
  "ev_status stoppedS1 = Stopped \<and> findTab asciiToLowerCase [tabB] stoppedS1 = Some tabB
   \<and> t_state tabB = ''idle''
   \<and> onSessionState asciiToLowerCase [tabB] stoppedS1 = []
   \<and> length (mutations (onSessionState asciiToLowerCase [tabB] stoppedS1)) \<le> 1"
proof -
  have h: "ev_status stoppedS1 = Stopped
           \<and> findTab asciiToLowerCase [tabB] stoppedS1 = Some tabB
           \<and> t_state tabB = ''idle''"
    by (simp add: sample_fields sample_matches)
  from at_most_one_mutation [of asciiToLowerCase "[tabB]" stoppedS1 tabB] h
  show ?thesis by blast
qed

section \<open>The fallback order of the matching\<close>

lemma matchesSessionId_eq:
  "matchesSessionId ev = (\<lambda>t. \<exists>s. t_session t = Some s \<and> s_id s = ev_session_id ev)"
  by (rule ext) (simp add: matchesSessionId_iff)

lemma find_path_step:
  assumes "ev_project_path ev = Some p" and "p \<noteq> []"
  shows "find (matchesProjectPath toLowerCase (normalizePath toLowerCase p)) tabs =
         find (\<lambda>t. \<exists>p q. ev_project_path ev = Some p \<and> p \<noteq> [] \<and>
                 tabProjectPath t = Some q \<and> q \<noteq> [] \<and>
                 normalizePath toLowerCase q = normalizePath toLowerCase p) tabs"
  using assms by (intro find_cong) (auto simp: matchesProjectPath_def split: option.splits)

lemma find_path_step_falsy:
  assumes "\<not> truthy (ev_project_path ev)"
  shows "find (\<lambda>t. \<exists>p q. ev_project_path ev = Some p \<and> p \<noteq> [] \<and>
                 tabProjectPath t = Some q \<and> q \<noteq> [] \<and>
                 normalizePath toLowerCase q = normalizePath toLowerCase p) tabs = None"
  using assms by (cases "ev_project_path ev") (auto simp: find_None_iff)

lemma findTab_eq:
  "findTab toLowerCase tabs ev =
     (case find (\<lambda>t. \<exists>s. t_session t = Some s \<and> s_id s = ev_session_id ev) tabs of
        Some t \<Rightarrow> Some t
      | None \<Rightarrow>
          find (\<lambda>t. \<exists>p q. ev_project_path ev = Some p \<and> p \<noteq> [] \<and>
                  tabProjectPath t = Some q \<and> q \<noteq> [] \<and>
                  normalizePath toLowerCase q = normalizePath toLowerCase p) tabs)"
proof (cases "ev_project_path ev")
  case None
  then have "\<not> truthy (ev_project_path ev)" by simp
  from find_path_step_falsy [OF this, of toLowerCase tabs] None show ?thesis
    by (simp add: findTab_def matchesSessionId_eq split: option.splits)
next
  case (Some p)
  show ?thesis
  proof (cases "p = []")
    case True
    with Some have "\<not> truthy (ev_project_path ev)" by simp
    from find_path_step_falsy [OF this, of toLowerCase tabs] Some True show ?thesis
      by (simp add: findTab_def matchesSessionId_eq split: option.splits)
  next
    case False
    from find_path_step [OF Some False, of toLowerCase tabs] Some False show ?thesis
      by (simp add: findTab_def matchesSessionId_eq split: option.splits)
  qed
qed

text \<open>
  C3, as the specification words it, fails: \<open>tabX\<close> has the session project path
  \<^verbatim>\<open>/repo/b\<close>, which is the path of the event \<open>startedS2\<close>, and no tab has the
  session id \<^verbatim>\<open>s2\<close>; the matching in the specification's words finds \<open>tabX\<close>, the
  handler finds no tab and warns, because \<open>tabX\<close> has a project path of its own,
  \<^verbatim>\<open>/repo/a\<close>, and only that one is compared.
\<close>

theorem path_step_ignores_session_path:
  "find (matchesSessionId startedS2) [tabX] = None
   \<and> ev_project_path startedS2 = Some ''/repo/b''
   \<and> spec_matchesProjectPath asciiToLowerCase ''/repo/b'' tabX
   \<and> spec_findTab asciiToLowerCase [tabX] startedS2 = Some tabX
   \<and> findTab asciiToLowerCase [tabX] startedS2 = None
   \<and> onSessionState asciiToLowerCase [tabX] startedS2 =
       [ConsoleWarn ''[SessionSync] No tab found for session s2'']"
  by (simp add: spec_findTab_def spec_matchesProjectPath_def match_defs onSessionState_def
      noTabFoundMessage_def tabX_def startedS2_def normalizePath_defs)

text \<open>
  The same holds for every \<open>toLowerCase\<close> that does on ASCII strings what the built-in
  does.
\<close>

lemma session_path_ignored_any_toLowerCase:
  assumes "\<And>s. isAscii s \<Longrightarrow> toLowerCase s = asciiToLowerCase s"
  shows "spec_findTab toLowerCase [tabX] startedS2 = Some tabX
         \<and> onSessionState toLowerCase [tabX] startedS2 =
             [ConsoleWarn ''[SessionSync] No tab found for session s2'']"
proof -
  have a: "isAscii ''/repo/a''" and b: "isAscii ''/repo/b''"
    by (simp_all add: isAscii_def)
  have na: "normalizePath toLowerCase ''/repo/a'' = ''/repo/a''"
    using normalizePath_ascii [OF assms a] by (simp add: normalizePath_defs)
  have nb: "normalizePath toLowerCase ''/repo/b'' = ''/repo/b''"
    using normalizePath_ascii [OF assms b] by (simp add: normalizePath_defs)
  show ?thesis
    by (simp add: spec_findTab_def spec_matchesProjectPath_def match_defs onSessionState_def
        noTabFoundMessage_def tabX_def startedS2_def na nb)
qed

text \<open>
  C3, amended. The matching takes the first tab whose session has the event's session
  id; when there is none and the event has a non-empty project path, the first tab whose
  project path (its own when that is non-empty, its session's otherwise) is non-empty
  and normalises to the normalised event path; when no tab has the session id and no tab
  matches by path in this sense (in particular when the event has no project path or an
  empty one), there is no mutation and the one effect is the warning that names the
  session id.
\<close>

theorem findTab_fallback_order:
  "findTab toLowerCase tabs ev =
     (case find (\<lambda>t. \<exists>s. t_session t = Some s \<and> s_id s = ev_session_id ev) tabs of
        Some t \<Rightarrow> Some t
      | None \<Rightarrow>
          find (\<lambda>t. \<exists>p q. ev_project_path ev = Some p \<and> p \<noteq> [] \<and>
                  tabProjectPath t = Some q \<and> q \<noteq> [] \<and>
                  normalizePath toLowerCase q = normalizePath toLowerCase p) tabs)
   \<and> tabProjectPath u =
       (if truthy (t_projectPath u) then t_projectPath u
        else map_option s_project_path (t_session u))
   \<and> (findTab toLowerCase tabs ev = None \<longrightarrow>
        onSessionState toLowerCase tabs ev =
          [ConsoleWarn (''[SessionSync] No tab found for session '' @ ev_session_id ev)]
        \<and> mutations (onSessionState toLowerCase tabs ev) = []
        \<and> length (warnings (onSessionState toLowerCase tabs ev)) = 1)"
proof -
  have "onSessionState toLowerCase tabs ev =
          [ConsoleWarn (''[SessionSync] No tab found for session '' @ ev_session_id ev)]
        \<and> mutations (onSessionState toLowerCase tabs ev) = []
        \<and> length (warnings (onSessionState toLowerCase tabs ev)) = 1"
    if "findTab toLowerCase tabs ev = None"
    using findTab_None_effects [OF that]
    by (simp add: noTabFoundMessage_def mutations_def warnings_def)
  moreover have "tabProjectPath u =
       (if truthy (t_projectPath u) then t_projectPath u
        else map_option s_project_path (t_session u))"
    by (simp add: tabProjectPath_def orElse_def)
  ultimately show ?thesis using findTab_eq [of toLowerCase tabs ev] by blast
qed

theorem findTab_fallback_order_witness:
  "findTab asciiToLowerCase [tabX] startedS2 = None
   \<and> onSessionState asciiToLowerCase [tabX] startedS2 =
       [ConsoleWarn ''[SessionSync] No tab found for session s2'']
   \<and> mutations (onSessionState asciiToLowerCase [tabX] startedS2) = []
   \<and> length (warnings (onSessionState asciiToLowerCase [tabX] startedS2)) = 1"
proof -
  have h: "findTab asciiToLowerCase [tabX] startedS2 = None"
    by (simp add: match_defs tabX_def startedS2_def normalizePath_defs)
  have "onSessionState asciiToLowerCase [tabX] startedS2 =
          [ConsoleWarn (''[SessionSync] No tab found for session '' @ ev_session_id startedS2)]
        \<and> mutations (onSessionState asciiToLowerCase [tabX] startedS2) = []
        \<and> length (warnings (onSessionState asciiToLowerCase [tabX] startedS2)) = 1"
    using findTab_fallback_order [of asciiToLowerCase "[tabX]" startedS2 tabX] h by blast
  moreover have "''[SessionSync] No tab found for session '' @ ev_session_id startedS2 =
      ''[SessionSync] No tab found for session s2''"
    by (simp add: startedS2_def)
  ultimately show ?thesis using h by metis
qed

section \<open>The error of a stopped session\<close>

lemma findTab_ev_error:
  "findTab toLowerCase tabs (ev\<lparr>ev_error := x\<rparr>) = findTab toLowerCase tabs ev"
  by (simp add: findTab_def matchesSessionId_eq split: option.splits)

lemma mutations_ev_error:
  "mutations (onSessionState toLowerCase tabs (ev\<lparr>ev_error := x\<rparr>))
     = mutations (onSessionState toLowerCase tabs ev)"
  by (simp add: onSessionState_def findTab_ev_error mutations_def
      split: option.splits status.splits)

text \<open>
  C6, as stated, fails: the \<^verbatim>\<open>stopped\<close> event \<open>stoppedS1\<close> carries the error
  \<^verbatim>\<open>oom\<close> and matches \<open>tabB\<close> by session id, but \<open>tabB\<close> is idle and the handler
  emits nothing, the error diagnostic included.
\<close>

theorem stopped_error_on_idle_tab_silent:
  "ev_status stoppedS1 = Stopped \<and> ev_error stoppedS1 = Some ''oom''
   \<and> findTab asciiToLowerCase [tabB] stoppedS1 = Some tabB \<and> t_state tabB = ''idle''
   \<and> onSessionState asciiToLowerCase [tabB] stoppedS1 = []"
  by (simp add: onSessionState_def match_defs tabB_def stoppedS1_def)

text \<open>The same holds whatever \<open>toLowerCase\<close> does: the match is by session id.\<close>

lemma idle_tab_silent_any_toLowerCase:
  "findTab toLowerCase [tabB] stoppedS1 = Some tabB
   \<and> onSessionState toLowerCase [tabB] stoppedS1 = []"
  by (simp add: onSessionState_def match_defs tabB_def stoppedS1_def)

text \<open>
  C6, amended. For a \<^verbatim>\<open>stopped\<close> event that matches a tab: when the tab is streaming
  and the event carries a non-empty error, the handler sets the tab to idle and then logs
  an error that holds the session id and the error text; when the tab is streaming and
  the event has no error or an empty one, the mutation is the only effect; when the tab
  is in any state other than streaming, nothing is emitted, whatever the error. For
  every event, with or without a match, the mutations are those of the same event
  without its error.
\<close>

theorem stopped_error_logged_when_streaming:
  assumes "ev_status ev = Stopped" and "findTab toLowerCase tabs ev = Some t"
  shows "(t_state t = ''streaming'' \<and> ev_error ev = Some e \<and> e \<noteq> [] \<longrightarrow>
            onSessionState toLowerCase tabs ev =
              [UpdateTabStreamingStatus (t_id t) False None,
               ConsoleError (''[SessionSync] Session '' @ ev_session_id ev
                             @ '' stopped with error:'') e])
         \<and> (t_state t = ''streaming'' \<and> \<not> truthy (ev_error ev) \<longrightarrow>
            onSessionState toLowerCase tabs ev =
              [UpdateTabStreamingStatus (t_id t) False None])
         \<and> (t_state t \<noteq> ''streaming'' \<longrightarrow> onSessionState toLowerCase tabs ev = [])
         \<and> mutations (onSessionState toLowerCase tabs ev) =
             mutations (onSessionState toLowerCase tabs (ev\<lparr>ev_error := None\<rparr>))"
proof -
  have a: "onSessionState toLowerCase tabs ev =
              [UpdateTabStreamingStatus (t_id t) False None,
               ConsoleError (''[SessionSync] Session '' @ ev_session_id ev
                             @ '' stopped with error:'') e]"
    if "t_state t = ''streaming''" "ev_error ev = Some e" "e \<noteq> []"
    using assms that by (simp add: onSessionState_def stoppedWithErrorMessage_def)
  have b: "onSessionState toLowerCase tabs ev = [UpdateTabStreamingStatus (t_id t) False None]"
    if "t_state t = ''streaming''" "\<not> truthy (ev_error ev)"
    using assms that by (cases "ev_error ev") (simp_all add: onSessionState_def)
  have c: "onSessionState toLowerCase tabs ev = []" if "t_state t \<noteq> ''streaming''"
    using assms that by (simp add: onSessionState_def)
  from a b c mutations_ev_error [where x = None and tabs = tabs and ev = ev
      and toLowerCase = toLowerCase]
  show ?thesis by simp
qed

theorem stopped_error_logged_when_streaming_witness:
  "ev_status stoppedS1 = Stopped
   \<and> findTab asciiToLowerCase [tabA_streaming] stoppedS1 = Some tabA_streaming
   \<and> t_state tabA_streaming = ''streaming'' \<and> ev_error stoppedS1 = Some ''oom''
   \<and> onSessionState asciiToLowerCase [tabA_streaming] stoppedS1 =
       [UpdateTabStreamingStatus ''A'' False None,
        ConsoleError ''[SessionSync] Session s1 stopped with error:'' ''oom'']
   \<and> findTab asciiToLowerCase [tabB] stoppedS1 = Some tabB
   \<and> t_state tabB = ''idle''
   \<and> onSessionState asciiToLowerCase [tabB] stoppedS1 = []"
proof -
  have h1: "ev_status stoppedS1 = Stopped" by (simp add: sample_fields)
  have h2: "findTab asciiToLowerCase [tabA_streaming] stoppedS1 = Some tabA_streaming"
    by (simp add: sample_matches)
  have h3: "t_state tabA_streaming = ''streaming''" by (simp add: sample_fields)
  have h4: "ev_error stoppedS1 = Some ''oom''" by (simp add: sample_fields)
  have h5: "findTab asciiToLowerCase [tabB] stoppedS1 = Some tabB"
    by (simp add: sample_matches)
  have h6: "t_state tabB = ''idle''" by (simp add: sample_fields)
  have "onSessionState asciiToLowerCase [tabA_streaming] stoppedS1 =
       [UpdateTabStreamingStatus ''A'' False None,
        ConsoleError ''[SessionSync] Session s1 stopped with error:'' ''oom'']"
    using stopped_error_logged_when_streaming [OF h1 h2, of "''oom''"] h3 h4
    by (simp add: sample_fields)
  moreover have "onSessionState asciiToLowerCase [tabB] stoppedS1 = []"
    using stopped_error_logged_when_streaming [OF h1 h5, of "''oom''"] h6 by simp
  ultimately show ?thesis using h1 h2 h3 h4 h5 h6 by blast
qed

section \<open>Loading the custom commands\<close>

text \<open>
  C8. When the backend call fails, the command list is empty afterwards. A message that
  contains \<^verbatim>\<open>not found\<close> or \<^verbatim>\<open>Unknown command\<close> leaves no error in the state (the
  one console call is a debug line); any other message becomes the error of the state.
  The call is made when the hook is enabled and the engine is not \<^verbatim>\<open>codex\<close>.
\<close>

theorem loadCommands_failure:
  assumes "enabled" and "engine \<noteq> Codex"
    and "invoke (getBackendCommand engine) (orElse projectPath None) = Inl msg"
  shows "customCommands (fst (loadCommands invoke projectPath enabled engine st)) = []
         \<and> isLoading (fst (loadCommands invoke projectPath enabled engine st)) = False
         \<and> error (fst (loadCommands invoke projectPath enabled engine st)) =
             (if str_includes msg ''not found'' \<or> str_includes msg ''Unknown command''
              then None else Some msg)
         \<and> snd (loadCommands invoke projectPath enabled engine st) =
             (if str_includes msg ''not found'' \<or> str_includes msg ''Unknown command''
              then [ConsoleDebug
                      (''Custom slash commands not available for engine: ''
                       @ engineName engine)]
              else [ConsoleErrorLog ''Failed to load custom slash commands:'' msg])"
  using assms by (simp add: loadCommands_def customCommands_def Let_def)

theorem loadCommands_failure_witness:
  "customCommands (fst (loadCommands invokeNotFound None True Gemini staleState)) = []
   \<and> error (fst (loadCommands invokeNotFound None True Gemini staleState)) = None
   \<and> customCommands (fst (loadCommands invokeDenied None True Claude staleState)) = []
   \<and> error (fst (loadCommands invokeDenied None True Claude staleState)) =
       Some ''permission denied''"
proof -
  have g: "Gemini \<noteq> Codex" and c: "Claude \<noteq> Codex" by simp_all
  have i1: "invokeNotFound (getBackendCommand Gemini) (orElse None None) =
            Inl ''Command list_gemini_custom_slash_commands not found''"
    by (simp add: invokeNotFound_def)
  have i2: "invokeDenied (getBackendCommand Claude) (orElse None None) =
            Inl ''permission denied''"
    by (simp add: invokeDenied_def)
  have s1: "str_includes ''Command list_gemini_custom_slash_commands not found'' ''not found''"
    by simp
  have s2: "\<not> str_includes ''permission denied'' ''not found''"
           "\<not> str_includes ''permission denied'' ''Unknown command''"
    by simp_all
  from loadCommands_failure [where enabled = True and engine = Gemini
         and invoke = invokeNotFound and projectPath = None and st = staleState, OF TrueI g i1]
       loadCommands_failure [where enabled = True and engine = Claude
         and invoke = invokeDenied and projectPath = None and st = staleState, OF TrueI c i2]
       s1 s2
  show ?thesis by simp
qed

section \<open>The arrow keys of the menu\<close>

text \<open>
  C9. While the menu is open, ArrowUp and ArrowDown keep a selected index that lies in
  \<open>[0, length - 1]\<close> in that range, stepping cyclically: ArrowUp goes to the index
  before, from 0 to the last; ArrowDown goes to the index after, from the last to 0.
\<close>

theorem arrow_keys_wrap:
  assumes "isOpen isSlashCommand st filteredCommands"
    and "key = ''ArrowUp'' \<or> key = ''ArrowDown''"
    and "0 \<le> selectedIndex st" and "selectedIndex st < int (length filteredCommands)"
  shows "0 \<le> selectedIndex (menu (handleKeyDown isSlashCommand filteredCommands key st))
    \<and> selectedIndex (menu (handleKeyDown isSlashCommand filteredCommands key st))
        < int (length filteredCommands)
    \<and> (key = ''ArrowUp'' \<longrightarrow>
         selectedIndex (menu (handleKeyDown isSlashCommand filteredCommands key st)) =
           (selectedIndex st - 1) mod int (length filteredCommands))
    \<and> (key = ''ArrowDown'' \<longrightarrow>
         selectedIndex (menu (handleKeyDown isSlashCommand filteredCommands key st)) =
           (selectedIndex st + 1) mod int (length filteredCommands))
    \<and> (key = ''ArrowUp'' \<and> selectedIndex st = 0 \<longrightarrow>
         selectedIndex (menu (handleKeyDown isSlashCommand filteredCommands key st)) =
           int (length filteredCommands) - 1)
    \<and> (key = ''ArrowDown'' \<and> selectedIndex st = int (length filteredCommands) - 1 \<longrightarrow>
         selectedIndex (menu (handleKeyDown isSlashCommand filteredCommands key st)) = 0)"
proof -
  let ?n = "int (length filteredCommands)"
  let ?i = "selectedIndex st"
  have up: "selectedIndex (menu (handleKeyDown isSlashCommand filteredCommands ''ArrowUp'' st))
              = (if ?i > 0 then ?i - 1 else ?n - 1)"
    using assms(1) by (simp add: handleKeyDown_def)
  have down: "selectedIndex (menu (handleKeyDown isSlashCommand filteredCommands ''ArrowDown'' st))
              = (if ?i < ?n - 1 then ?i + 1 else 0)"
    using assms(1) by (simp add: handleKeyDown_def)
  have m1: "(?i - 1) mod ?n = (if ?i > 0 then ?i - 1 else ?n - 1)"
  proof (cases "?i > 0")
    case True
    with assms(4) show ?thesis by (simp add: mod_pos_pos_trivial)
  next
    case False
    with assms(3) have z: "?i = 0" by simp
    have "(- 1) mod ?n = ?n - 1" using assms(4) z
      by (simp add: zmod_minus1)
    with z show ?thesis by simp
  qed
  have m2: "(?i + 1) mod ?n = (if ?i < ?n - 1 then ?i + 1 else 0)"
  proof (cases "?i < ?n - 1")
    case True
    with assms(3) show ?thesis by (simp add: mod_pos_pos_trivial)
  next
    case False
    with assms(4) have "?i + 1 = ?n" by simp
    with False show ?thesis by simp
  qed
  from assms(2) show ?thesis
  proof
    assume k: "key = ''ArrowUp''"
    show ?thesis using assms(3,4) unfolding k up m1 by auto
  next
    assume k: "key = ''ArrowDown''"
    show ?thesis using assms(3,4) unfolding k down m2 by auto
  qed
qed

theorem arrow_keys_wrap_witness:
  "isOpen True firstSelected sampleCommands
   \<and> selectedIndex (menu (handleKeyDown True sampleCommands ''ArrowUp'' firstSelected)) = 2
   \<and> isOpen True lastSelected sampleCommands
   \<and> selectedIndex (menu (handleKeyDown True sampleCommands ''ArrowDown'' lastSelected)) = 0"
proof -
  have o1: "isOpen True firstSelected sampleCommands"
    and o2: "isOpen True lastSelected sampleCommands"
    by (simp_all add: isOpen_def firstSelected_def lastSelected_def sampleCommands_def)
  have n: "int (length sampleCommands) = 3" by (simp add: sampleCommands_def)
  have f: "selectedIndex firstSelected = 0" and l: "selectedIndex lastSelected = 2"
    by (simp_all add: firstSelected_def lastSelected_def)
  have "selectedIndex (menu (handleKeyDown True sampleCommands ''ArrowUp'' firstSelected)) = 2"
    using arrow_keys_wrap [of True firstSelected sampleCommands "''ArrowUp''"] o1
    by (simp add: n f)
  moreover
  have "selectedIndex (menu (handleKeyDown True sampleCommands ''ArrowDown'' lastSelected)) = 0"
    using arrow_keys_wrap [of True lastSelected sampleCommands "''ArrowDown''"] o2
    by (simp add: n l)
  ultimately show ?thesis using o1 o2 by blast
qed

section \<open>The theme toggle\<close>

text \<open>
  C10. The toggle maps \<^verbatim>\<open>light\<close> to \<^verbatim>\<open>dark\<close> and \<^verbatim>\<open>dark\<close> to \<^verbatim>\<open>light\<close>; applied
  twice, it gives the theme it started from.
\<close>

theorem toggleTheme_involution:
  "toggleTheme Light = Dark \<and> toggleTheme Dark = Light
   \<and> toggleTheme (toggleTheme theme) = theme"
  by (cases theme) (simp_all add: toggleTheme_def)

end
